theory Spec2Isabelle
  imports Main
begin

section \<open>The payload generator state machine of v2/pkg/requests/generator.go\<close>

subsection \<open>Outcomes of a call\<close>

text \<open>
  A Go call either returns, or never returns to its caller. The ways of not returning that
  generator.go can reach are: a lock acquisition that waits for a release nobody will perform,
  an index outside a slice, a call through a nil function value, and releasing a mutex that is not
  held. A call that returns is \<open>Inr\<close> of its result; one that does not is \<open>Inl\<close> of the reason.
\<close>

datatype failure = Blocks | IndexOutOfRange | NilFuncCall | UnlockOfUnlocked

definition seq :: "failure + 'a \<Rightarrow> ('a \<Rightarrow> failure + 'b) \<Rightarrow> failure + 'b" where
  "seq m f = (case m of Inl e \<Rightarrow> Inl e | Inr x \<Rightarrow> f x)"

subsection \<open>sync.RWMutex\<close>

text \<open>
  A reader/writer mutex is held by one writer or by a number of readers. It is not reentrant:
  the goroutine that holds it for writing blocks like any other when it asks for it again. The
  model follows one goroutine, so a request that has to wait waits for ever.
\<close>

datatype RWMutex = RWMutex (writer: bool) (readerCount: nat)

definition unlocked :: RWMutex where
  "unlocked = RWMutex False 0"

definition Lock :: "RWMutex \<Rightarrow> failure + RWMutex" where
  "Lock m = (if writer m \<or> readerCount m > 0 then Inl Blocks else Inr (RWMutex True 0))"

definition Unlock :: "RWMutex \<Rightarrow> failure + RWMutex" where
  "Unlock m = (if writer m then Inr (RWMutex False (readerCount m)) else Inl UnlockOfUnlocked)"

definition RLock :: "RWMutex \<Rightarrow> failure + RWMutex" where
  "RLock m = (if writer m then Inl Blocks else Inr (RWMutex False (readerCount m + 1)))"

definition RUnlock :: "RWMutex \<Rightarrow> failure + RWMutex" where
  "RUnlock m = (if readerCount m = 0 then Inl UnlockOfUnlocked
                else Inr (RWMutex (writer m) (readerCount m - 1)))"

subsection \<open>Data\<close>

datatype GeneratorState = Init | Running | Done

text \<open>
  A Go map from names to values is an association list; \<open>len\<close> counts its distinct keys. A map
  variable may be nil, which is \<open>None\<close> where the code tells nil from a map.
\<close>

type_synonym binding = "(string \<times> string) list"

definition len_map :: "('k \<times> 'v) list \<Rightarrow> nat" where
  "len_map m = length (remdups (map fst m))"

text \<open>
  Modelled from the spec: the package generators is not part of the sources. Its Type names the
  combination mode, its three generator functions take the loaded value lists and return a live
  stream of bindings, one new channel for each call. A channel is known here by the function that
  made it, the value lists it was made from, and a serial number that tells the channels of
  successive calls apart.
\<close>

datatype Type = Sniper | PitchFork | ClusterBomb

datatype generatorFunc = SniperGenerator | PitchforkGenerator | ClusterbombGenerator

record chan =
  made_by :: generatorFunc
  fed_from :: "(string \<times> string list) list"
  serial :: nat

record Generator =
  gmu :: RWMutex
  positionPath :: int
  positionRaw :: int
  currentPayloads :: "binding option"
  gchan :: "chan option"
  currentGeneratorValue :: "binding option"
  state :: GeneratorState

text \<open>
  The field \<open>chans_made\<close> is not a field of the Go struct: it counts the calls of the generator
  function made so far, and gives the next channel its serial number.
\<close>

record GeneratorFSM =
  mu :: RWMutex
  payloads :: "(string \<times> string) list"
  basePayloads :: "(string \<times> string list) list"
  generator :: "generatorFunc option"
  Generators :: "string \<rightharpoonup> Generator"
  Type :: "Type option"
  Paths :: "string list"
  Raws :: "string list"
  chans_made :: nat

definition gfsm_Lock :: "GeneratorFSM \<Rightarrow> failure + GeneratorFSM" where
  "gfsm_Lock gfsm = seq (Lock (mu gfsm)) (\<lambda>m. Inr (gfsm\<lparr>mu := m\<rparr>))"

definition gfsm_Unlock :: "GeneratorFSM \<Rightarrow> failure + GeneratorFSM" where
  "gfsm_Unlock gfsm = seq (Unlock (mu gfsm)) (\<lambda>m. Inr (gfsm\<lparr>mu := m\<rparr>))"

definition gfsm_RLock :: "GeneratorFSM \<Rightarrow> failure + GeneratorFSM" where
  "gfsm_RLock gfsm = seq (RLock (mu gfsm)) (\<lambda>m. Inr (gfsm\<lparr>mu := m\<rparr>))"

definition gfsm_RUnlock :: "GeneratorFSM \<Rightarrow> failure + GeneratorFSM" where
  "gfsm_RUnlock gfsm = seq (RUnlock (mu gfsm)) (\<lambda>m. Inr (gfsm\<lparr>mu := m\<rparr>))"

definition g_Lock :: "Generator \<Rightarrow> failure + Generator" where
  "g_Lock g = seq (Lock (gmu g)) (\<lambda>m. Inr (g\<lparr>gmu := m\<rparr>))"

definition g_Unlock :: "Generator \<Rightarrow> failure + Generator" where
  "g_Unlock g = seq (Unlock (gmu g)) (\<lambda>m. Inr (g\<lparr>gmu := m\<rparr>))"

text \<open>
  The map holds pointers, each made by Add for its own key, so that no two keys share a
  Generator: writing through the pointer found under a key is updating the entry of that key.
\<close>

definition store :: "string \<Rightarrow> Generator \<Rightarrow> GeneratorFSM \<Rightarrow> GeneratorFSM" where
  "store key g gfsm = gfsm\<lparr>Generators := (Generators gfsm)(key \<mapsto> g)\<rparr>"

subsection \<open>Construction\<close>

text \<open>
  \<open>LoadPayloads\<close> belongs to the package generators and is a parameter. The constructor leaves
  the field Type at its zero value.
\<close>

definition NewGeneratorFSM ::
  "((string \<times> string) list \<Rightarrow> (string \<times> string list) list) \<Rightarrow> Type \<Rightarrow>
   (string \<times> string) list \<Rightarrow> string list \<Rightarrow> string list \<Rightarrow> GeneratorFSM" where
  "NewGeneratorFSM LoadPayloads typ pls paths raws =
     \<lparr>mu = unlocked,
      payloads = pls,
      basePayloads = (if len_map pls > 0 then LoadPayloads pls else []),
      generator = (if len_map pls > 0
                   then Some (case typ of PitchFork \<Rightarrow> PitchforkGenerator
                                        | ClusterBomb \<Rightarrow> ClusterbombGenerator
                                        | Sniper \<Rightarrow> SniperGenerator)
                   else None),
      Generators = Map.empty,
      Type = None,
      Paths = paths,
      Raws = raws,
      chans_made = 0\<rparr>"

definition new_Generator :: Generator where
  "new_Generator = \<lparr>gmu = unlocked, positionPath = 0, positionRaw = 0, currentPayloads = None,
                    gchan = None, currentGeneratorValue = None, state = Init\<rparr>"

subsection \<open>Membership and registration\<close>

definition Add :: "string \<Rightarrow> GeneratorFSM \<Rightarrow> failure + GeneratorFSM" where
  "Add key gfsm =
     seq (gfsm_Lock gfsm) (\<lambda>s.
       gfsm_Unlock (case Generators s key of
                      None \<Rightarrow> store key new_Generator s
                    | Some g \<Rightarrow> s))"

definition Has :: "string \<Rightarrow> GeneratorFSM \<Rightarrow> failure + (bool \<times> GeneratorFSM)" where
  "Has key gfsm =
     seq (gfsm_RLock gfsm) (\<lambda>s.
       seq (gfsm_RUnlock s) (\<lambda>s'. Inr (Generators s key \<noteq> None, s')))"

definition Delete :: "string \<Rightarrow> GeneratorFSM \<Rightarrow> failure + GeneratorFSM" where
  "Delete key gfsm =
     seq (gfsm_Lock gfsm) (\<lambda>s.
       gfsm_Unlock (s\<lparr>Generators := (Generators s)(key := None)\<rparr>))"

text \<open>
  Reset takes the write lock and, holding it, calls Has, which asks for the read lock of the same
  mutex; where Has answers false it calls Add, which asks for the write lock.
\<close>

definition Reset :: "string \<Rightarrow> GeneratorFSM \<Rightarrow> failure + GeneratorFSM" where
  "Reset key gfsm =
     seq (gfsm_Lock gfsm) (\<lambda>s.
       seq (Has key s) (\<lambda>(ok, s1).
         seq (if \<not> ok then Add key s1 else Inr s1) (\<lambda>s2.
           case Generators s2 key of
             None \<Rightarrow> gfsm_Unlock s2
           | Some g \<Rightarrow> gfsm_Unlock (store key (g\<lparr>positionPath := 0, positionRaw := 0\<rparr>) s2))))"

subsection \<open>The dynamic stream\<close>

text \<open>
  ReadOne waits in a select for the channel of the key and for a timer of 15 seconds. Which of
  the two is ready first is decided outside this code and is the argument \<open>sel\<close>: a value was
  received (the value is a map and may be nil), the channel was found closed, or the timer fired.
  A receive from a nil channel is never ready, so with no channel only the timer can fire.
\<close>

datatype selected = Received "binding option" | ChannelClosed | TimerFired

definition select_ready :: "Generator \<Rightarrow> selected \<Rightarrow> selected" where
  "select_ready g sel = (case gchan g of None \<Rightarrow> TimerFired | Some c \<Rightarrow> sel)"

definition ReadOne :: "string \<Rightarrow> selected \<Rightarrow> GeneratorFSM \<Rightarrow> failure + GeneratorFSM" where
  "ReadOne key sel gfsm =
     seq (gfsm_RLock gfsm) (\<lambda>s.
       case Generators s key of
         None \<Rightarrow> gfsm_RUnlock s
       | Some g \<Rightarrow>
           (case select_ready g sel of
              Received curGenValue \<Rightarrow>
                gfsm_RUnlock (store key (g\<lparr>currentGeneratorValue := curGenValue\<rparr>) s)
            | ChannelClosed \<Rightarrow>
                seq (g_Lock g) (\<lambda>g1.
                  seq (g_Unlock (g1\<lparr>gchan := None, state := Done,
                                     currentGeneratorValue := None\<rparr>)) (\<lambda>g2.
                    gfsm_RUnlock (store key g2 s)))
            | TimerFired \<Rightarrow>
                seq (g_Lock g) (\<lambda>g1.
                  seq (g_Unlock (g1\<lparr>gchan := None, state := Done\<rparr>)) (\<lambda>g2.
                    gfsm_RUnlock (store key g2 s)))))"

definition call_generator :: "generatorFunc \<Rightarrow> (string \<times> string list) list \<Rightarrow> nat \<Rightarrow> chan" where
  "call_generator f pls n = \<lparr>made_by = f, fed_from = pls, serial = n\<rparr>"

definition InitOrSkip :: "string \<Rightarrow> GeneratorFSM \<Rightarrow> failure + GeneratorFSM" where
  "InitOrSkip key gfsm =
     seq (gfsm_RLock gfsm) (\<lambda>s.
       case Generators s key of
         None \<Rightarrow> gfsm_RUnlock s
       | Some g \<Rightarrow>
           if len_map (payloads s) > 0 then
             seq (g_Lock g) (\<lambda>g1.
               if gchan g1 = None then
                 (case generator s of
                    None \<Rightarrow> Inl NilFuncCall
                  | Some f \<Rightarrow>
                      seq (g_Unlock (g1\<lparr>gchan := Some (call_generator f (basePayloads s)
                                                          (chans_made s)),
                                         state := Running\<rparr>)) (\<lambda>g2.
                        gfsm_RUnlock (store key g2 (s\<lparr>chans_made := chans_made s + 1\<rparr>))))
               else
                 seq (g_Unlock g1) (\<lambda>g2. gfsm_RUnlock (store key g2 s)))
           else gfsm_RUnlock s)"

definition Value :: "string \<Rightarrow> GeneratorFSM \<Rightarrow> failure + (binding option \<times> GeneratorFSM)" where
  "Value key gfsm =
     seq (gfsm_RLock gfsm) (\<lambda>s.
       seq (gfsm_RUnlock s) (\<lambda>s'.
         case Generators s key of
           None \<Rightarrow> Inr (None, s')
         | Some g \<Rightarrow> Inr (currentGeneratorValue g, s')))"

subsection \<open>Progress over the static lists\<close>

definition hasPayloads :: "GeneratorFSM \<Rightarrow> bool" where
  "hasPayloads gfsm = (len_map (basePayloads gfsm) > 0)"

text \<open>
  Go's int is taken at 64 bits, two's complement: a sum that leaves the range
  \<open>-2^63 \<dots> 2^63 - 1\<close> wraps around. The counters are ints of the model and stand
  for the 64-bit values of the fields; \<open>add64\<close> is the \<open>+\<close> of the code.
\<close>

definition wrap64 :: "int \<Rightarrow> int" where
  "wrap64 x = (x + 2 ^ 63) mod 2 ^ 64 - 2 ^ 63"

definition add64 :: "int \<Rightarrow> int \<Rightarrow> int" where
  "add64 a b = wrap64 (a + b)"

definition Total :: "GeneratorFSM \<Rightarrow> int" where
  "Total gfsm = add64 (int (length (Paths gfsm))) (int (length (Raws gfsm)))"

definition Next :: "string \<Rightarrow> GeneratorFSM \<Rightarrow> failure + (bool \<times> GeneratorFSM)" where
  "Next key gfsm =
     seq (gfsm_RLock gfsm) (\<lambda>s.
       seq (gfsm_RUnlock s) (\<lambda>s'.
         case Generators s key of
           None \<Rightarrow> Inr (False, s')
         | Some g \<Rightarrow>
             if hasPayloads s \<and> state g = Done then Inr (False, s')
             else if add64 (positionPath g) (positionRaw g)
                       \<ge> add64 (int (length (Paths s))) (int (length (Raws s)))
             then Inr (False, s')
             else Inr (True, s')))"

definition Position :: "string \<Rightarrow> GeneratorFSM \<Rightarrow> failure + (int \<times> GeneratorFSM)" where
  "Position key gfsm =
     seq (gfsm_RLock gfsm) (\<lambda>s.
       seq (gfsm_RUnlock s) (\<lambda>s'.
         case Generators s key of
           None \<Rightarrow> Inr (0, s')
         | Some g \<Rightarrow> Inr (add64 (positionPath g) (positionRaw g), s')))"

text \<open>Indexing a slice panics outside \<open>0 \<le> i < len\<close>.\<close>

definition index :: "'a list \<Rightarrow> int \<Rightarrow> failure + 'a" where
  "index xs i = (if 0 \<le> i \<and> i < int (length xs) then Inr (xs ! nat i) else Inl IndexOutOfRange)"

definition Current :: "string \<Rightarrow> GeneratorFSM \<Rightarrow> failure + (string \<times> GeneratorFSM)" where
  "Current key gfsm =
     seq (gfsm_RLock gfsm) (\<lambda>s.
       case Generators s key of
         None \<Rightarrow> seq (gfsm_RUnlock s) (\<lambda>s'. Inr ('''', s'))
       | Some g \<Rightarrow>
           if positionPath g < int (length (Paths s)) \<and> length (Paths s) \<noteq> 0
           then seq (index (Paths s) (positionPath g)) (\<lambda>r.
                  seq (gfsm_RUnlock s) (\<lambda>s'. Inr (r, s')))
           else seq (index (Raws s) (positionRaw g)) (\<lambda>r.
                  seq (gfsm_RUnlock s) (\<lambda>s'. Inr (r, s'))))"

definition Increment :: "string \<Rightarrow> GeneratorFSM \<Rightarrow> failure + GeneratorFSM" where
  "Increment key gfsm =
     seq (gfsm_Lock gfsm) (\<lambda>s.
       case Generators s key of
         None \<Rightarrow> gfsm_Unlock s
       | Some g \<Rightarrow>
           if length (Paths s) > 0 \<and> positionPath g < int (length (Paths s))
           then gfsm_Unlock (store key (g\<lparr>positionPath := positionPath g + 1\<rparr>) s)
           else if length (Raws s) > 0 \<and> positionRaw g < int (length (Raws s))
           then (if gchan g = None
                 then gfsm_Unlock (store key (g\<lparr>state := Done,
                                                 positionRaw := positionRaw g + 1\<rparr>) s)
                 else gfsm_Unlock s)
           else gfsm_Unlock s)"

subsection \<open>States a caller can reach\<close>

text \<open>
  A caller constructs the coordinator and then calls the exposed operations one after another;
  a call moves to a new state when it returns. The two slices handed to the constructor lie in
  memory, a string taking 16 bytes of it, so that their lengths together are an int.
\<close>

inductive reachable :: "GeneratorFSM \<Rightarrow> bool" where
  r_new: "int (length paths) + int (length raws) < 2 ^ 63 \<Longrightarrow>
          reachable (NewGeneratorFSM LoadPayloads typ pls paths raws)"
| r_Add: "reachable s \<Longrightarrow> Add key s = Inr s' \<Longrightarrow> reachable s'"
| r_Has: "reachable s \<Longrightarrow> Has key s = Inr (b, s') \<Longrightarrow> reachable s'"
| r_Delete: "reachable s \<Longrightarrow> Delete key s = Inr s' \<Longrightarrow> reachable s'"
| r_Reset: "reachable s \<Longrightarrow> Reset key s = Inr s' \<Longrightarrow> reachable s'"
| r_InitOrSkip: "reachable s \<Longrightarrow> InitOrSkip key s = Inr s' \<Longrightarrow> reachable s'"
| r_ReadOne: "reachable s \<Longrightarrow> ReadOne key sel s = Inr s' \<Longrightarrow> reachable s'"
| r_Value: "reachable s \<Longrightarrow> Value key s = Inr (v, s') \<Longrightarrow> reachable s'"
| r_Next: "reachable s \<Longrightarrow> Next key s = Inr (b, s') \<Longrightarrow> reachable s'"
| r_Position: "reachable s \<Longrightarrow> Position key s = Inr (n, s') \<Longrightarrow> reachable s'"
| r_Current: "reachable s \<Longrightarrow> Current key s = Inr (c, s') \<Longrightarrow> reachable s'"
| r_Increment: "reachable s \<Longrightarrow> Increment key s = Inr s' \<Longrightarrow> reachable s'"

subsection \<open>Invariants of the reachable states\<close>

definition quiet :: "GeneratorFSM \<Rightarrow> bool" where
  "quiet s = (mu s = unlocked \<and> (\<forall>k g. Generators s k = Some g \<longrightarrow> gmu g = unlocked))"

definition in_bounds :: "GeneratorFSM \<Rightarrow> Generator \<Rightarrow> bool" where
  "in_bounds s g = (0 \<le> positionPath g \<and> positionPath g \<le> int (length (Paths s)) \<and>
                    0 \<le> positionRaw g \<and> positionRaw g \<le> int (length (Raws s)))"

definition owns_stream :: "Generator \<Rightarrow> bool" where
  "owns_stream g = (state g = Running \<longrightarrow> gchan g \<noteq> None)"

definition fits :: "GeneratorFSM \<Rightarrow> bool" where
  "fits s = (int (length (Paths s)) + int (length (Raws s)) < 2 ^ 63)"

definition sound :: "GeneratorFSM \<Rightarrow> bool" where
  "sound s = (quiet s \<and> fits s \<and>
              (\<forall>k g. Generators s k = Some g \<longrightarrow> in_bounds s g \<and> owns_stream g))"


subsection \<open>A coordinator to run the operations on\<close>

definition demo_LoadPayloads :: "(string \<times> string) list \<Rightarrow> (string \<times> string list) list" where
  "demo_LoadPayloads pls = map (\<lambda>p. (fst p, [snd p])) pls"

definition demo_new :: GeneratorFSM where
  "demo_new = NewGeneratorFSM demo_LoadPayloads Sniper [(''var'', ''x'')] [''a'', ''b''] [''r'']"

definition demo_added :: GeneratorFSM where
  "demo_added = store ''k'' new_Generator demo_new"

definition demo_chan :: chan where
  "demo_chan = call_generator SniperGenerator [(''var'', [''x''])] 0"

definition demo_g :: Generator where
  "demo_g = new_Generator\<lparr>gchan := Some demo_chan, state := Running\<rparr>"

definition demo_running :: GeneratorFSM where
  "demo_running = store ''k'' demo_g (demo_new\<lparr>chans_made := 1\<rparr>)"

definition demo_advanced :: GeneratorFSM where
  "demo_advanced = store ''k'' (new_Generator\<lparr>positionPath := 1\<rparr>) demo_new"

definition demo_at_raw :: GeneratorFSM where
  "demo_at_raw = store ''k'' (new_Generator\<lparr>positionPath := 2\<rparr>) demo_new"

definition demo_done :: GeneratorFSM where
  "demo_done = store ''k'' (new_Generator\<lparr>state := Done\<rparr>) (demo_new\<lparr>chans_made := 1\<rparr>)"

definition demo_plain :: GeneratorFSM where
  "demo_plain = NewGeneratorFSM demo_LoadPayloads Sniper [] [''a'', ''b''] []"

definition demo_plain_end :: GeneratorFSM where
  "demo_plain_end = store ''k'' (new_Generator\<lparr>positionPath := 2\<rparr>) demo_plain"

definition demo_over :: GeneratorFSM where
  "demo_over = store ''k'' (new_Generator\<lparr>positionPath := 2 ^ 63 - 1, positionRaw := 1\<rparr>)
                 demo_plain"


section \<open>Properties\<close>

subsection \<open>What each operation returns\<close>

lemma seq_Inl [simp]: "seq (Inl e) f = Inl e"
  by (simp add: seq_def)

lemma seq_Inr [simp]: "seq (Inr x) f = f x"
  by (simp add: seq_def)

lemmas mutex_defs = Lock_def Unlock_def RLock_def RUnlock_def unlocked_def

lemmas lock_defs = gfsm_Lock_def gfsm_Unlock_def gfsm_RLock_def gfsm_RUnlock_def
  g_Lock_def g_Unlock_def

lemma store_same: "Generators s key = Some g \<Longrightarrow> store key g s = s"
  by (simp add: store_def map_upd_triv)

lemma Add_returns:
  "mu s = unlocked \<Longrightarrow>
   Add key s = Inr (case Generators s key of None \<Rightarrow> store key new_Generator s | Some g \<Rightarrow> s)"
  by (simp add: Add_def lock_defs mutex_defs store_def split: option.splits)

lemma Has_returns: "mu s = unlocked \<Longrightarrow> Has key s = Inr (Generators s key \<noteq> None, s)"
  by (simp add: Has_def lock_defs mutex_defs)

lemma Delete_returns:
  "mu s = unlocked \<Longrightarrow> Delete key s = Inr (s\<lparr>Generators := (Generators s)(key := None)\<rparr>)"
  by (simp add: Delete_def lock_defs mutex_defs)

lemma ReadOne_unknown:
  "mu s = unlocked \<Longrightarrow> Generators s key = None \<Longrightarrow> ReadOne key sel s = Inr s"
  by (simp add: ReadOne_def lock_defs mutex_defs)

lemma ReadOne_returns:
  "mu s = unlocked \<Longrightarrow> Generators s key = Some g \<Longrightarrow> gmu g = unlocked \<Longrightarrow>
   ReadOne key sel s = Inr (case select_ready g sel of
       Received v \<Rightarrow> store key (g\<lparr>currentGeneratorValue := v\<rparr>) s
     | ChannelClosed \<Rightarrow> store key (g\<lparr>gchan := None, state := Done, currentGeneratorValue := None\<rparr>) s
     | TimerFired \<Rightarrow> store key (g\<lparr>gchan := None, state := Done\<rparr>) s)"
  by (cases g, cases s) (simp add: ReadOne_def lock_defs mutex_defs store_def split: selected.splits)

lemma InitOrSkip_unknown:
  "mu s = unlocked \<Longrightarrow> Generators s key = None \<Longrightarrow> InitOrSkip key s = Inr s"
  by (simp add: InitOrSkip_def lock_defs mutex_defs)

lemma InitOrSkip_no_payloads:
  "mu s = unlocked \<Longrightarrow> len_map (payloads s) = 0 \<Longrightarrow> InitOrSkip key s = Inr s"
  by (simp add: InitOrSkip_def lock_defs mutex_defs split: option.splits)

lemma InitOrSkip_live:
  "mu s = unlocked \<Longrightarrow> Generators s key = Some g \<Longrightarrow> gmu g = unlocked \<Longrightarrow>
   gchan g = Some c \<Longrightarrow> InitOrSkip key s = Inr s"
  by (cases g, cases s) (auto simp add: InitOrSkip_def lock_defs mutex_defs store_def map_upd_triv)

lemma InitOrSkip_start:
  "mu s = unlocked \<Longrightarrow> Generators s key = Some g \<Longrightarrow> gmu g = unlocked \<Longrightarrow>
   gchan g = None \<Longrightarrow> len_map (payloads s) > 0 \<Longrightarrow> generator s = Some f \<Longrightarrow>
   InitOrSkip key s = Inr (store key (g\<lparr>gchan := Some (call_generator f (basePayloads s) (chans_made s)),
                               state := Running\<rparr>) (s\<lparr>chans_made := chans_made s + 1\<rparr>))"
  by (cases g, cases s) (simp add: InitOrSkip_def lock_defs mutex_defs store_def)

lemma Value_returns:
  "mu s = unlocked \<Longrightarrow>
   Value key s = Inr (case Generators s key of None \<Rightarrow> None | Some g \<Rightarrow> currentGeneratorValue g, s)"
  by (simp add: Value_def lock_defs mutex_defs split: option.splits)

lemma add64_exact: "- (2 ^ 63) \<le> a + b \<Longrightarrow> a + b < 2 ^ 63 \<Longrightarrow> add64 a b = a + b"
  by (simp add: add64_def wrap64_def)

lemma Next_returns:
  "mu s = unlocked \<Longrightarrow>
   Next key s = Inr (case Generators s key of None \<Rightarrow> False
      | Some g \<Rightarrow> \<not> (hasPayloads s \<and> state g = Done) \<and>
                  add64 (positionPath g) (positionRaw g) < Total s, s)"
  by (auto simp add: Next_def Total_def hasPayloads_def lock_defs mutex_defs split: option.splits)

lemma Position_returns:
  "mu s = unlocked \<Longrightarrow>
   Position key s = Inr (case Generators s key of None \<Rightarrow> 0
      | Some g \<Rightarrow> add64 (positionPath g) (positionRaw g), s)"
  by (simp add: Position_def lock_defs mutex_defs split: option.splits)

lemma Current_unknown:
  "mu s = unlocked \<Longrightarrow> Generators s key = None \<Longrightarrow> Current key s = Inr ('''', s)"
  by (simp add: Current_def lock_defs mutex_defs)

lemma Current_known:
  "mu s = unlocked \<Longrightarrow> Generators s key = Some g \<Longrightarrow>
   Current key s =
     seq (if positionPath g < int (length (Paths s)) \<and> Paths s \<noteq> []
          then index (Paths s) (positionPath g) else index (Raws s) (positionRaw g))
         (\<lambda>r. Inr (r, s))"
  by (simp add: Current_def lock_defs mutex_defs seq_def split: sum.splits)

lemma Increment_unknown:
  "mu s = unlocked \<Longrightarrow> Generators s key = None \<Longrightarrow> Increment key s = Inr s"
  by (simp add: Increment_def lock_defs mutex_defs)

lemma Increment_known:
  "mu s = unlocked \<Longrightarrow> Generators s key = Some g \<Longrightarrow>
   Increment key s = Inr
     (if Paths s \<noteq> [] \<and> positionPath g < int (length (Paths s))
      then store key (g\<lparr>positionPath := positionPath g + 1\<rparr>) s
      else if Raws s \<noteq> [] \<and> positionRaw g < int (length (Raws s)) \<and> gchan g = None
      then store key (g\<lparr>state := Done, positionRaw := positionRaw g + 1\<rparr>) s
      else s)"
  by (simp add: Increment_def lock_defs mutex_defs store_def)

lemma Reset_stuck: "Reset key gfsm = Inl Blocks"
  by (simp add: Reset_def Has_def lock_defs mutex_defs)

subsection \<open>The invariants hold in every reachable state\<close>

lemma InitOrSkip_nil:
  "mu s = unlocked \<Longrightarrow> Generators s key = Some g \<Longrightarrow> gmu g = unlocked \<Longrightarrow>
   gchan g = None \<Longrightarrow> len_map (payloads s) > 0 \<Longrightarrow> generator s = None \<Longrightarrow>
   InitOrSkip key s = Inl NilFuncCall"
  by (cases g, cases s) (simp add: InitOrSkip_def lock_defs mutex_defs store_def)

lemma sound_new:
  "int (length paths) + int (length raws) < 2 ^ 63 \<Longrightarrow>
   sound (NewGeneratorFSM LoadPayloads typ pls paths raws)"
  by (simp add: sound_def quiet_def fits_def NewGeneratorFSM_def)

lemma sound_Add: "sound s \<Longrightarrow> Add key s = Inr s' \<Longrightarrow> sound s'"
  by (auto simp add: sound_def quiet_def fits_def Add_returns store_def new_Generator_def in_bounds_def
      owns_stream_def split: option.splits if_splits)

lemma sound_Delete: "sound s \<Longrightarrow> Delete key s = Inr s' \<Longrightarrow> sound s'"
  by (auto simp add: sound_def quiet_def fits_def Delete_returns in_bounds_def split: if_splits)

lemma sound_entry:
  "sound s \<Longrightarrow> Generators s key = Some g \<Longrightarrow>
   mu s = unlocked \<and> gmu g = unlocked \<and> in_bounds s g \<and> owns_stream g"
  by (simp add: sound_def quiet_def fits_def)

lemma sound_store:
  "sound s \<Longrightarrow> gmu g = unlocked \<Longrightarrow> in_bounds s g \<Longrightarrow> owns_stream g \<Longrightarrow>
   sound (store key g s)"
  by (simp add: sound_def quiet_def fits_def store_def in_bounds_def)

lemma sound_chans_made: "sound s \<Longrightarrow> sound (s\<lparr>chans_made := n\<rparr>)"
  by (simp add: sound_def quiet_def fits_def in_bounds_def)

lemma sound_ReadOne: "sound s \<Longrightarrow> ReadOne key sel s = Inr s' \<Longrightarrow> sound s'"
proof (cases "Generators s key")
  case None
  assume "sound s" "ReadOne key sel s = Inr s'"
  with None show ?thesis by (simp add: sound_def quiet_def fits_def ReadOne_unknown)
next
  case (Some g)
  assume a: "sound s" "ReadOne key sel s = Inr s'"
  note e = sound_entry[OF a(1) Some]
  then have "mu s = unlocked" "gmu g = unlocked" by simp_all
  from ReadOne_returns[OF this(1) Some this(2), of sel] a e show ?thesis
    by (auto simp add: in_bounds_def owns_stream_def intro!: sound_store split: selected.splits)
qed

lemma sound_InitOrSkip: "sound s \<Longrightarrow> InitOrSkip key s = Inr s' \<Longrightarrow> sound s'"
proof (cases "Generators s key")
  case None
  assume "sound s" "InitOrSkip key s = Inr s'"
  with None show ?thesis by (simp add: sound_def quiet_def fits_def InitOrSkip_unknown)
next
  case (Some g)
  assume a: "sound s" "InitOrSkip key s = Inr s'"
  then have q: "mu s = unlocked" "gmu g = unlocked" using Some by (auto simp: sound_def quiet_def fits_def)
  show ?thesis
  proof (cases "len_map (payloads s) = 0")
    case True
    with a q show ?thesis by (simp add: InitOrSkip_no_payloads)
  next
    case False
    then have p: "len_map (payloads s) > 0" by simp
    show ?thesis
    proof (cases "gchan g")
      case (Some c)
      with a q \<open>Generators s key = Some g\<close> show ?thesis by (simp add: InitOrSkip_live)
    next
      case None
      show ?thesis
      proof (cases "generator s")
        case nil: None
        from InitOrSkip_nil[OF q(1) \<open>Generators s key = Some g\<close> q(2) None p nil] a
        show ?thesis by simp
      next
        case (Some f)
        from InitOrSkip_start[OF q(1) \<open>Generators s key = Some g\<close> q(2) None p Some] a
          sound_entry[OF a(1) \<open>Generators s key = Some g\<close>]
        show ?thesis
          by (auto simp add: in_bounds_def owns_stream_def intro!: sound_store sound_chans_made)
      qed
    qed
  qed
qed

lemma sound_Increment: "sound s \<Longrightarrow> Increment key s = Inr s' \<Longrightarrow> sound s'"
proof (cases "Generators s key")
  case None
  assume "sound s" "Increment key s = Inr s'"
  with None show ?thesis by (simp add: sound_def quiet_def fits_def Increment_unknown)
next
  case (Some g)
  assume a: "sound s" "Increment key s = Inr s'"
  note e = sound_entry[OF a(1) Some]
  from e have m: "mu s = unlocked" by simp
  from Increment_known[OF m Some] a e show ?thesis
    by (auto simp add: in_bounds_def owns_stream_def intro!: sound_store split: if_splits)
qed

lemma sound_Current: "sound s \<Longrightarrow> Current key s = Inr (c, s') \<Longrightarrow> sound s'"
proof (cases "Generators s key")
  case None
  assume "sound s" "Current key s = Inr (c, s')"
  with None show ?thesis by (simp add: sound_def quiet_def fits_def Current_unknown)
next
  case (Some g)
  assume a: "sound s" "Current key s = Inr (c, s')"
  then have "mu s = unlocked" by (simp add: sound_def quiet_def fits_def)
  from Current_known[OF this Some] a have "s' = s"
    by (auto simp add: seq_def split: sum.splits if_splits)
  with a show ?thesis by simp
qed

lemma reachable_sound: "reachable s \<Longrightarrow> sound s"
proof (induction rule: reachable.induct)
  case r_new
  then show ?case by (rule sound_new)
next
  case (r_Add s key s')
  then show ?case by (blast intro: sound_Add)
next
  case (r_Has s key b s')
  then show ?case by (simp add: sound_def quiet_def fits_def Has_returns)
next
  case (r_Delete s key s')
  then show ?case by (blast intro: sound_Delete)
next
  case (r_Reset s key s')
  then show ?case by (simp add: Reset_stuck)
next
  case (r_InitOrSkip s key s')
  then show ?case by (blast intro: sound_InitOrSkip)
next
  case (r_ReadOne s key sel s')
  then show ?case by (blast intro: sound_ReadOne)
next
  case (r_Value s key v s')
  then show ?case by (simp add: sound_def quiet_def fits_def Value_returns)
next
  case (r_Next s key b s')
  then show ?case by (simp add: sound_def quiet_def fits_def Next_returns)
next
  case (r_Position s key n s')
  then show ?case by (simp add: sound_def quiet_def fits_def Position_returns)
next
  case (r_Current s key c s')
  then show ?case by (blast intro: sound_Current)
next
  case (r_Increment s key s')
  then show ?case by (blast intro: sound_Increment)
qed

subsection \<open>The claims\<close>

text \<open>
  C1. Every exposed operation is said to return, Reset in particular for every key. Reset
  returns for no key and no state: having taken the write lock it calls Has, whose request for
  the read lock of the same mutex waits for a release that only Reset itself could perform.
\<close>

theorem Reset_never_returns: "Reset key gfsm = Inl Blocks"
  by (simp add: Reset_def Has_def lock_defs mutex_defs)

lemma InitOrSkip_blocked:
  "mu s = unlocked \<Longrightarrow> Generators s key = Some g \<Longrightarrow> gmu g \<noteq> unlocked \<Longrightarrow>
   len_map (payloads s) > 0 \<Longrightarrow> InitOrSkip key s = Inl Blocks"
  by (cases g, cases s, cases "gmu g")
     (auto simp add: InitOrSkip_def lock_defs mutex_defs)

lemma InitOrSkip_again:
  assumes "mu s = unlocked" and "InitOrSkip key s = Inr s1"
  shows "InitOrSkip key s1 = Inr s1 \<and> chans_made s1 \<le> chans_made s + 1"
proof (cases "Generators s key")
  case None
  with assms show ?thesis by (simp add: InitOrSkip_unknown)
next
  case (Some g)
  show ?thesis
  proof (cases "len_map (payloads s) = 0")
    case True
    with assms show ?thesis by (simp add: InitOrSkip_no_payloads)
  next
    case False
    then have p: "len_map (payloads s) > 0" by simp
    have q: "gmu g = unlocked"
      using InitOrSkip_blocked[OF assms(1) Some _ p] assms(2) by auto
    show ?thesis
    proof (cases "gchan g")
      case live: (Some c)
      with assms Some q show ?thesis by (simp add: InitOrSkip_live)
    next
      case None
      show ?thesis
      proof (cases "generator s")
        case nil: None
        from InitOrSkip_nil[OF assms(1) Some q None p nil] assms(2) show ?thesis by simp
      next
        case (Some f)
        let ?c = "call_generator f (basePayloads s) (chans_made s)"
        let ?g = "g\<lparr>gchan := Some ?c, state := Running\<rparr>"
        from InitOrSkip_start[OF assms(1) \<open>Generators s key = Some g\<close> q None p Some] assms(2)
        have s1: "s1 = store key ?g (s\<lparr>chans_made := chans_made s + 1\<rparr>)" by simp
        have "InitOrSkip key s1 = Inr s1"
        proof (rule InitOrSkip_live)
          show "mu s1 = unlocked" using assms(1) by (simp add: s1 store_def)
          show "Generators s1 key = Some ?g" by (simp add: s1 store_def)
          show "gmu ?g = unlocked" using q by simp
          show "gchan ?g = Some ?c" by simp
        qed
        then show ?thesis by (simp add: s1 store_def)
      qed
    qed
  qed
qed

text \<open>
  C2. From a coordinator whose mutex is free, ReadOne on an unregistered key returns the state
  as it was. On a registered key that holds a channel it returns in one of three ways and no
  other: a received value becomes currentGeneratorValue and nothing else of the key changes (the
  phase and the channel stay); a closed channel sets gchan to nil, currentGeneratorValue to nil
  and the phase to Done; the timer sets gchan to nil and the phase to Done and leaves
  currentGeneratorValue as it was.
\<close>

theorem ReadOne_outcomes:
  assumes "mu gfsm = unlocked"
  shows "(Generators gfsm key = None \<longrightarrow> ReadOne key sel gfsm = Inr gfsm) \<and>
         (\<forall>g c. Generators gfsm key = Some g \<and> gchan g = Some c \<and> gmu g = unlocked \<longrightarrow>
            (\<forall>v. ReadOne key (Received v) gfsm
                  = Inr (store key (g\<lparr>currentGeneratorValue := v\<rparr>) gfsm)) \<and>
            ReadOne key ChannelClosed gfsm
              = Inr (store key (g\<lparr>gchan := None, state := Done,
                                   currentGeneratorValue := None\<rparr>) gfsm) \<and>
            ReadOne key TimerFired gfsm
              = Inr (store key (g\<lparr>gchan := None, state := Done\<rparr>) gfsm) \<and>
            ((\<exists>v. ReadOne key sel gfsm
                   = Inr (store key (g\<lparr>currentGeneratorValue := v\<rparr>) gfsm)) \<or>
             ReadOne key sel gfsm
               = Inr (store key (g\<lparr>gchan := None, state := Done,
                                    currentGeneratorValue := None\<rparr>) gfsm) \<or>
             ReadOne key sel gfsm
               = Inr (store key (g\<lparr>gchan := None, state := Done\<rparr>) gfsm)))"
proof (intro conjI allI impI)
  assume "Generators gfsm key = None"
  with assms show "ReadOne key sel gfsm = Inr gfsm" by (rule ReadOne_unknown)
next
  fix g c v
  assume h: "Generators gfsm key = Some g \<and> gchan g = Some c \<and> gmu g = unlocked"
  then have r: "\<And>x. ReadOne key x gfsm = Inr (case select_ready g x of
       Received v \<Rightarrow> store key (g\<lparr>currentGeneratorValue := v\<rparr>) gfsm
     | ChannelClosed \<Rightarrow> store key (g\<lparr>gchan := None, state := Done, currentGeneratorValue := None\<rparr>) gfsm
     | TimerFired \<Rightarrow> store key (g\<lparr>gchan := None, state := Done\<rparr>) gfsm)"
    using assms by (simp add: ReadOne_returns)
  have sr: "\<And>x. select_ready g x = x" using h by (simp add: select_ready_def)
  show "ReadOne key (Received v) gfsm = Inr (store key (g\<lparr>currentGeneratorValue := v\<rparr>) gfsm)"
    by (simp add: r sr)
  show "ReadOne key ChannelClosed gfsm
              = Inr (store key (g\<lparr>gchan := None, state := Done,
                                   currentGeneratorValue := None\<rparr>) gfsm)"
    by (simp add: r sr)
  show "ReadOne key TimerFired gfsm
              = Inr (store key (g\<lparr>gchan := None, state := Done\<rparr>) gfsm)"
    by (simp add: r sr)
  show "(\<exists>v. ReadOne key sel gfsm
                   = Inr (store key (g\<lparr>currentGeneratorValue := v\<rparr>) gfsm)) \<or>
             ReadOne key sel gfsm
               = Inr (store key (g\<lparr>gchan := None, state := Done,
                                    currentGeneratorValue := None\<rparr>) gfsm) \<or>
             ReadOne key sel gfsm
               = Inr (store key (g\<lparr>gchan := None, state := Done\<rparr>) gfsm)"
    by (cases sel) (auto simp add: r sr)
qed

text \<open>
  C3. From a coordinator whose mutex is free, Increment returns and changes at most one counter,
  by priority: positionPath goes up by one while it is below the length of a non-empty Paths;
  otherwise, with Raws non-empty and positionRaw below its length, positionRaw goes up by one
  and the phase becomes Done, but only when the key holds no channel; in every other case, and
  for an unknown key, the state is returned as it was.
\<close>

theorem Increment_one_counter:
  assumes "mu gfsm = unlocked"
  shows "(Generators gfsm key = None \<longrightarrow> Increment key gfsm = Inr gfsm) \<and>
         (\<forall>g. Generators gfsm key = Some g \<longrightarrow>
            (Paths gfsm \<noteq> [] \<and> positionPath g < int (length (Paths gfsm)) \<longrightarrow>
               Increment key gfsm
                 = Inr (store key (g\<lparr>positionPath := positionPath g + 1\<rparr>) gfsm)) \<and>
            (\<not> (Paths gfsm \<noteq> [] \<and> positionPath g < int (length (Paths gfsm))) \<and>
             Raws gfsm \<noteq> [] \<and> positionRaw g < int (length (Raws gfsm)) \<and> gchan g = None \<longrightarrow>
               Increment key gfsm
                 = Inr (store key (g\<lparr>state := Done, positionRaw := positionRaw g + 1\<rparr>) gfsm)) \<and>
            (\<not> (Paths gfsm \<noteq> [] \<and> positionPath g < int (length (Paths gfsm))) \<and>
             \<not> (Raws gfsm \<noteq> [] \<and> positionRaw g < int (length (Raws gfsm)) \<and> gchan g = None) \<longrightarrow>
               Increment key gfsm = Inr gfsm))"
  using assms by (simp add: Increment_unknown Increment_known)

text \<open>
  C4. From a coordinator whose mutex is free, Next answers false for an unregistered key; for a
  registered key it answers false when value lists are loaded (hasPayloads) and the phase is
  Done, false when positionPath + positionRaw has reached Total, and true otherwise. Total is
  the sum of the lengths of Paths and Raws. Both sums are the sums of the code, of 64-bit ints;
  they are the sums of the integers whenever these lie in the range of an int, as they do for
  the lengths of slices and for counters within them. The state is returned unchanged.
\<close>

theorem Next_reports:
  assumes "mu gfsm = unlocked"
  shows "(Generators gfsm key = None \<longrightarrow> Next key gfsm = Inr (False, gfsm)) \<and>
         (\<forall>g. Generators gfsm key = Some g \<longrightarrow>
            (hasPayloads gfsm \<and> state g = Done \<longrightarrow> Next key gfsm = Inr (False, gfsm)) \<and>
            (add64 (positionPath g) (positionRaw g) \<ge> Total gfsm \<longrightarrow>
               Next key gfsm = Inr (False, gfsm)) \<and>
            (\<not> (hasPayloads gfsm \<and> state g = Done) \<and>
             add64 (positionPath g) (positionRaw g) < Total gfsm \<longrightarrow>
               Next key gfsm = Inr (True, gfsm)) \<and>
            (- (2 ^ 63) \<le> positionPath g + positionRaw g \<and>
             positionPath g + positionRaw g < 2 ^ 63 \<longrightarrow>
               add64 (positionPath g) (positionRaw g) = positionPath g + positionRaw g)) \<and>
         Total gfsm = add64 (int (length (Paths gfsm))) (int (length (Raws gfsm))) \<and>
         (int (length (Paths gfsm)) + int (length (Raws gfsm)) < 2 ^ 63 \<longrightarrow>
            Total gfsm = int (length (Paths gfsm)) + int (length (Raws gfsm)))"
proof -
  have t: "Total gfsm = int (length (Paths gfsm)) + int (length (Raws gfsm))"
    if "int (length (Paths gfsm)) + int (length (Raws gfsm)) < 2 ^ 63"
    using that unfolding Total_def by (intro add64_exact) simp_all
  from assms t show ?thesis
    by (auto simp add: Next_returns add64_exact) (simp add: Total_def)
qed

text \<open>
  C6. From a coordinator whose mutex is free, Current answers the empty string for an
  unregistered key. For a registered key whose positionPath is not negative it answers
  Paths[positionPath] while positionPath is below the length of Paths; otherwise it indexes
  Raws at positionRaw with no guard: the answer is Raws[positionRaw] when that index exists,
  and the call panics when it does not.
\<close>

theorem Current_literal:
  assumes "mu gfsm = unlocked"
  shows "(Generators gfsm key = None \<longrightarrow> Current key gfsm = Inr ('''', gfsm)) \<and>
         (\<forall>g. Generators gfsm key = Some g \<and> 0 \<le> positionPath g \<longrightarrow>
            (positionPath g < int (length (Paths gfsm)) \<longrightarrow>
               Current key gfsm = Inr (Paths gfsm ! nat (positionPath g), gfsm)) \<and>
            (int (length (Paths gfsm)) \<le> positionPath g \<longrightarrow>
               (0 \<le> positionRaw g \<and> positionRaw g < int (length (Raws gfsm)) \<longrightarrow>
                  Current key gfsm = Inr (Raws gfsm ! nat (positionRaw g), gfsm)) \<and>
               (\<not> (0 \<le> positionRaw g \<and> positionRaw g < int (length (Raws gfsm))) \<longrightarrow>
                  Current key gfsm = Inl IndexOutOfRange)))"
  using assms by (auto simp add: Current_unknown Current_known index_def)

text \<open>
  C7. From a coordinator whose mutex is free, InitOrSkip returns the state as it was when no
  payloads are configured or the key is unregistered. With payloads configured, a registered key
  that holds no channel gets the channel that the stored generator function makes from
  basePayloads, and the phase Running; this is one more call of the generator. A key that holds
  a channel keeps it and the state is returned as it was. Whenever a call returns, the same call
  made again returns the same state: it makes no further channel, so two calls in a row make at
  most one.
\<close>

theorem InitOrSkip_starts_once:
  assumes "mu gfsm = unlocked"
  shows "(len_map (payloads gfsm) = 0 \<or> Generators gfsm key = None \<longrightarrow>
            InitOrSkip key gfsm = Inr gfsm) \<and>
         (\<forall>g f. len_map (payloads gfsm) > 0 \<and> Generators gfsm key = Some g \<and>
                gmu g = unlocked \<and> gchan g = None \<and> generator gfsm = Some f \<longrightarrow>
            InitOrSkip key gfsm
              = Inr (store key (g\<lparr>gchan := Some (call_generator f (basePayloads gfsm)
                                                     (chans_made gfsm)),
                                   state := Running\<rparr>)
                       (gfsm\<lparr>chans_made := chans_made gfsm + 1\<rparr>))) \<and>
         (\<forall>g c. Generators gfsm key = Some g \<and> gmu g = unlocked \<and> gchan g = Some c \<longrightarrow>
            InitOrSkip key gfsm = Inr gfsm) \<and>
         (\<forall>s1. InitOrSkip key gfsm = Inr s1 \<longrightarrow>
            InitOrSkip key s1 = Inr s1 \<and> chans_made s1 \<le> chans_made gfsm + 1)"
  using assms InitOrSkip_again[OF assms]
  by (auto simp add: InitOrSkip_unknown InitOrSkip_no_payloads InitOrSkip_start InitOrSkip_live)

text \<open>
  C8. From a coordinator whose mutex is free, Add on an absent key stores a new Generator, whose
  phase is Init, under that key; on a present key it returns the state as it was, whatever the
  positions, phase, channel and latest value of the key are. Add after Add changes nothing.
\<close>

theorem Add_idempotent:
  assumes "mu gfsm = unlocked"
  shows "(Generators gfsm key = None \<longrightarrow> Add key gfsm = Inr (store key new_Generator gfsm)) \<and>
         state new_Generator = Init \<and>
         (\<forall>g. Generators gfsm key = Some g \<longrightarrow> Add key gfsm = Inr gfsm) \<and>
         (\<forall>s1. Add key gfsm = Inr s1 \<longrightarrow> Add key s1 = Inr s1)"
  using assms
  by (auto simp add: Add_returns store_def new_Generator_def split: option.splits)

text \<open>
  C9. In every state that a caller reaches from the constructor by calls of the exposed
  operations, no registered key is in phase Running without a channel.
\<close>

theorem Running_owns_stream:
  assumes "reachable gfsm" and "Generators gfsm key = Some g"
  shows "\<not> (gchan g = None \<and> state g = Running)"
  using sound_entry[OF reachable_sound[OF assms(1)] assms(2)] by (auto simp add: owns_stream_def)

text \<open>
  C10. In every state that a caller reaches from the constructor by calls of the exposed
  operations, each registered key has \<open>0 \<le> positionPath \<le> len(Paths)\<close> and
  \<open>0 \<le> positionRaw \<le> len(Raws)\<close>; a further Increment keeps both counters within
  the lengths; and Position returns a value between 0 and Total.
\<close>

theorem positions_in_bounds:
  assumes "reachable gfsm"
  shows "(\<forall>g. Generators gfsm key = Some g \<longrightarrow>
            0 \<le> positionPath g \<and> positionPath g \<le> int (length (Paths gfsm)) \<and>
            0 \<le> positionRaw g \<and> positionRaw g \<le> int (length (Raws gfsm))) \<and>
         (\<forall>s' g'. Increment key gfsm = Inr s' \<and> Generators s' key = Some g' \<longrightarrow>
            positionPath g' \<le> int (length (Paths s')) \<and>
            positionRaw g' \<le> int (length (Raws s'))) \<and>
         (\<exists>n. Position key gfsm = Inr (n, gfsm) \<and> 0 \<le> n \<and> n \<le> Total gfsm)"
proof -
  note s = reachable_sound[OF assms]
  then have m: "mu gfsm = unlocked" by (simp add: sound_def quiet_def fits_def)
  have now: "in_bounds gfsm g" if "Generators gfsm key = Some g" for g
    using sound_entry[OF s that] by simp
  have after: "in_bounds s' g'"
    if "Increment key gfsm = Inr s'" and "Generators s' key = Some g'" for s' g'
    using sound_entry[OF sound_Increment[OF s that(1)] that(2)] by simp
  from s have f: "int (length (Paths gfsm)) + int (length (Raws gfsm)) < 2 ^ 63"
    by (simp add: sound_def fits_def)
  then have t: "Total gfsm = int (length (Paths gfsm)) + int (length (Raws gfsm))"
    unfolding Total_def by (intro add64_exact) simp_all
  have pos: "\<exists>n. Position key gfsm = Inr (n, gfsm) \<and> 0 \<le> n \<and> n \<le> Total gfsm"
  proof (cases "Generators gfsm key")
    case None
    with m t show ?thesis by (simp add: Position_returns)
  next
    case (Some g)
    from now[OF Some] f
    have "add64 (positionPath g) (positionRaw g) = positionPath g + positionRaw g"
      by (intro add64_exact) (simp_all add: in_bounds_def)
    with now[OF Some] Some m t show ?thesis
      by (simp add: Position_returns in_bounds_def)
  qed
  from now after pos show ?thesis unfolding in_bounds_def by blast
qed

lemmas demo_defs = demo_LoadPayloads_def demo_new_def demo_added_def demo_chan_def demo_g_def
  demo_running_def demo_advanced_def demo_at_raw_def demo_done_def demo_plain_def
  demo_plain_end_def demo_over_def NewGeneratorFSM_def new_Generator_def
  store_def call_generator_def len_map_def unlocked_def

lemma demo_new_reachable: "reachable demo_new"
  unfolding demo_new_def by (rule r_new) simp

lemma demo_Add: "Add ''k'' demo_new = Inr demo_added"
proof -
  have "mu demo_new = unlocked" by (simp add: demo_defs)
  from Add_returns[OF this, of "''k''"] show ?thesis by (simp add: demo_defs)
qed

lemma demo_InitOrSkip: "InitOrSkip ''k'' demo_added = Inr demo_running"
proof -
  have "mu demo_added = unlocked" "Generators demo_added ''k'' = Some new_Generator"
    "gmu new_Generator = unlocked" "gchan new_Generator = None"
    "len_map (payloads demo_added) > 0" "generator demo_added = Some SniperGenerator"
    by (simp_all add: demo_defs)
  from InitOrSkip_start[OF this] show ?thesis by (simp add: demo_defs)
qed

lemma demo_Increment: "Increment ''k'' demo_added = Inr demo_advanced"
proof -
  have "mu demo_added = unlocked" "Generators demo_added ''k'' = Some new_Generator"
    by (simp_all add: demo_defs)
  from Increment_known[OF this] show ?thesis by (simp add: demo_defs)
qed

lemma demo_added_reachable: "reachable demo_added"
  by (rule r_Add[OF demo_new_reachable demo_Add])

lemma demo_running_reachable: "reachable demo_running"
  by (rule r_InitOrSkip[OF demo_added_reachable demo_InitOrSkip])

lemma demo_advanced_reachable: "reachable demo_advanced"
  by (rule r_Increment[OF demo_added_reachable demo_Increment])

text \<open>
  C5. Reset is meant to set both counters of the key to zero. On a coordinator whose key
  \<open>k\<close> has been advanced to position 1, Reset does not return: it blocks in its call of
  Has before it reaches the counters, so the position stays 1 and no reset state is produced.
\<close>

theorem Reset_strands_positions:
  "Increment ''k'' demo_added = Inr demo_advanced \<and>
   Position ''k'' demo_advanced = Inr (1, demo_advanced) \<and>
   Reset ''k'' demo_advanced = Inl Blocks \<and>
   Reset ''k'' demo_advanced \<noteq> Inr (store ''k'' new_Generator demo_new)"
proof -
  have "mu demo_advanced = unlocked" by (simp add: demo_defs)
  from Position_returns[OF this, of "''k''"]
  have "Position ''k'' demo_advanced = Inr (1, demo_advanced)"
    by (simp add: demo_defs add64_def wrap64_def)
  then show ?thesis by (simp add: demo_Increment Reset_stuck)
qed

theorem ReadOne_outcomes_witness:
  "mu demo_running = unlocked \<and> Generators demo_running ''z'' = None \<and>
   ReadOne ''z'' TimerFired demo_running = Inr demo_running \<and>
   Generators demo_running ''k'' = Some demo_g \<and> gchan demo_g = Some demo_chan \<and>
   gmu demo_g = unlocked \<and>
   ReadOne ''k'' (Received (Some [(''var'', ''x'')])) demo_running
     = Inr (store ''k'' (demo_g\<lparr>currentGeneratorValue := Some [(''var'', ''x'')]\<rparr>) demo_running) \<and>
   ReadOne ''k'' ChannelClosed demo_running
     = Inr (store ''k'' (demo_g\<lparr>gchan := None, state := Done,
                                currentGeneratorValue := None\<rparr>) demo_running) \<and>
   ReadOne ''k'' TimerFired demo_running
     = Inr (store ''k'' (demo_g\<lparr>gchan := None, state := Done\<rparr>) demo_running)"
proof -
  have m: "mu demo_running = unlocked" by (simp add: demo_defs)
  have z: "Generators demo_running ''z'' = None" by (simp add: demo_defs)
  have k: "Generators demo_running ''k'' = Some demo_g \<and> gchan demo_g = Some demo_chan \<and>
           gmu demo_g = unlocked" by (simp add: demo_defs)
  from ReadOne_outcomes[OF m, of "''z''" TimerFired] ReadOne_outcomes[OF m, of "''k''" TimerFired]
    m z k show ?thesis by blast
qed

theorem Increment_one_counter_witness:
  "mu demo_added = unlocked \<and> Generators demo_added ''z'' = None \<and>
   Increment ''z'' demo_added = Inr demo_added \<and>
   Increment ''k'' demo_added = Inr demo_advanced \<and>
   Increment ''k'' demo_at_raw
     = Inr (store ''k'' (new_Generator\<lparr>positionPath := 2, positionRaw := 1, state := Done\<rparr>) demo_new) \<and>
   Increment ''k'' demo_running = Inr (store ''k'' (demo_g\<lparr>positionPath := 1\<rparr>) demo_running)"
proof -
  have m: "mu demo_added = unlocked" "mu demo_at_raw = unlocked" "mu demo_running = unlocked"
    by (simp_all add: demo_defs)
  have z: "Generators demo_added ''z'' = None" by (simp add: demo_defs)
  from Increment_one_counter[OF m(1), of "''z''"] z
  have a: "Increment ''z'' demo_added = Inr demo_added" by blast
  from Increment_one_counter[OF m(1), of "''k''"]
  have b: "Increment ''k'' demo_added = Inr demo_advanced" by (simp add: demo_defs)
  from Increment_one_counter[OF m(2), of "''k''"]
  have c: "Increment ''k'' demo_at_raw
     = Inr (store ''k'' (new_Generator\<lparr>positionPath := 2, positionRaw := 1, state := Done\<rparr>) demo_new)"
    by (simp add: demo_defs)
  from Increment_one_counter[OF m(3), of "''k''"]
  have d: "Increment ''k'' demo_running = Inr (store ''k'' (demo_g\<lparr>positionPath := 1\<rparr>) demo_running)"
    by (simp add: demo_defs)
  from m z a b c d show ?thesis by simp
qed

theorem Next_reports_witness:
  "mu demo_added = unlocked \<and> Next ''z'' demo_added = Inr (False, demo_added) \<and>
   Next ''k'' demo_added = Inr (True, demo_added) \<and> Total demo_added = 3 \<and>
   hasPayloads demo_done \<and> Next ''k'' demo_done = Inr (False, demo_done) \<and>
   \<not> hasPayloads demo_plain_end \<and> Total demo_plain_end = 2 \<and>
   Next ''k'' demo_plain_end = Inr (False, demo_plain_end) \<and>
   Next ''k'' demo_over = Inr (True, demo_over)"
proof -
  have m: "mu demo_added = unlocked" "mu demo_done = unlocked" "mu demo_plain_end = unlocked"
    "mu demo_over = unlocked"
    by (simp_all add: demo_defs)
  have h: "hasPayloads demo_done" "\<not> hasPayloads demo_plain_end"
    by (simp_all add: demo_defs hasPayloads_def)
  have k: "Generators demo_done ''k'' = Some (new_Generator\<lparr>state := Done\<rparr>)"
    "Generators demo_plain_end ''k'' = Some (new_Generator\<lparr>positionPath := 2\<rparr>)"
    "Generators demo_over ''k''
       = Some (new_Generator\<lparr>positionPath := 2 ^ 63 - 1, positionRaw := 1\<rparr>)"
    by (simp_all add: demo_defs)
  from Next_reports[OF m(1), of "''z''"]
  have a: "Next ''z'' demo_added = Inr (False, demo_added)" by (simp add: demo_defs)
  from Next_reports[OF m(1), of "''k''"]
  have b: "Next ''k'' demo_added = Inr (True, demo_added) \<and> Total demo_added = 3"
    by (simp add: demo_defs hasPayloads_def add64_def wrap64_def)
  from Next_reports[OF m(2), of "''k''"] h(1) k(1)
  have c: "Next ''k'' demo_done = Inr (False, demo_done)"
    by (simp add: new_Generator_def)
  from Next_reports[OF m(3), of "''k''"] h(2) k(2)
  have d: "Total demo_plain_end = 2 \<and> Next ''k'' demo_plain_end = Inr (False, demo_plain_end)"
    by (simp add: demo_defs add64_def wrap64_def)
  have "\<not> hasPayloads demo_over" by (simp add: demo_defs hasPayloads_def)
  with Next_reports[OF m(4), of "''k''"] k(3)
  have e: "Next ''k'' demo_over = Inr (True, demo_over)"
    by (simp add: demo_defs add64_def wrap64_def)
  from m h a b c d e show ?thesis by simp
qed

theorem Current_literal_witness:
  "mu demo_added = unlocked \<and> Current ''z'' demo_added = Inr ('''', demo_added) \<and>
   Current ''k'' demo_added = Inr (''a'', demo_added) \<and>
   Current ''k'' demo_advanced = Inr (''b'', demo_advanced) \<and>
   Current ''k'' demo_at_raw = Inr (''r'', demo_at_raw)"
proof -
  have m: "mu demo_added = unlocked" "mu demo_advanced = unlocked" "mu demo_at_raw = unlocked"
    by (simp_all add: demo_defs)
  from Current_literal[OF m(1), of "''z''"] Current_literal[OF m(1), of "''k''"]
    Current_literal[OF m(2), of "''k''"] Current_literal[OF m(3), of "''k''"] m
  show ?thesis by (simp add: demo_defs)
qed

theorem InitOrSkip_starts_once_witness:
  "mu demo_added = unlocked \<and> InitOrSkip ''z'' demo_added = Inr demo_added \<and>
   InitOrSkip ''k'' demo_added = Inr demo_running \<and>
   InitOrSkip ''k'' demo_running = Inr demo_running \<and>
   chans_made demo_running \<le> chans_made demo_added + 1"
proof -
  have m: "mu demo_added = unlocked" by (simp add: demo_defs)
  have z: "Generators demo_added ''z'' = None" by (simp add: demo_defs)
  from InitOrSkip_starts_once[OF m, of "''z''"] z
  have a: "InitOrSkip ''z'' demo_added = Inr demo_added" by blast
  from InitOrSkip_starts_once[OF m, of "''k''"]
  have b: "InitOrSkip ''k'' demo_added = Inr demo_running" by (simp add: demo_defs)
  from InitOrSkip_starts_once[OF m, of "''k''"] b
  have c: "InitOrSkip ''k'' demo_running = Inr demo_running \<and>
           chans_made demo_running \<le> chans_made demo_added + 1" by blast
  from m a b c show ?thesis by simp
qed

theorem Add_idempotent_witness:
  "mu demo_new = unlocked \<and> Generators demo_new ''k'' = None \<and>
   Add ''k'' demo_new = Inr demo_added \<and> Add ''k'' demo_added = Inr demo_added \<and>
   Add ''k'' demo_advanced = Inr demo_advanced"
proof -
  have m: "mu demo_new = unlocked" "mu demo_advanced = unlocked" by (simp_all add: demo_defs)
  have n: "Generators demo_new ''k'' = None" by (simp add: demo_defs)
  from Add_idempotent[OF m(1), of "''k''"] n
  have a: "Add ''k'' demo_new = Inr demo_added" by (simp add: demo_added_def)
  from Add_idempotent[OF m(1), of "''k''"] a
  have b: "Add ''k'' demo_added = Inr demo_added" by blast
  have "Generators demo_advanced ''k'' = Some (new_Generator\<lparr>positionPath := 1\<rparr>)"
    by (simp add: demo_defs)
  with Add_idempotent[OF m(2), of "''k''"]
  have c: "Add ''k'' demo_advanced = Inr demo_advanced" by blast
  from m n a b c show ?thesis by simp
qed

theorem Running_owns_stream_witness:
  "reachable demo_running \<and> Generators demo_running ''k'' = Some demo_g \<and>
   state demo_g = Running \<and> gchan demo_g \<noteq> None"
proof -
  have k: "Generators demo_running ''k'' = Some demo_g" by (simp add: demo_defs)
  have r: "state demo_g = Running" by (simp add: demo_defs)
  from Running_owns_stream[OF demo_running_reachable k] r demo_running_reachable k
  show ?thesis by simp
qed

theorem positions_in_bounds_witness:
  "reachable demo_advanced \<and>
   (\<exists>g. Generators demo_advanced ''k'' = Some g \<and>
        0 \<le> positionPath g \<and> positionPath g \<le> 2 \<and> 0 \<le> positionRaw g \<and> positionRaw g \<le> 1) \<and>
   (\<exists>n. Position ''k'' demo_advanced = Inr (n, demo_advanced) \<and> n \<le> 3)"
proof -
  have k: "Generators demo_advanced ''k'' = Some (new_Generator\<lparr>positionPath := 1\<rparr>)"
    by (simp add: demo_defs)
  have l: "length (Paths demo_advanced) = 2" "length (Raws demo_advanced) = 1"
    "Total demo_advanced = 3"
    by (simp_all add: demo_defs Total_def add64_def wrap64_def)
  from positions_in_bounds[OF demo_advanced_reachable, of "''k''"] k l demo_advanced_reachable
  show ?thesis by auto
qed

end
